theory Spec2Isabelle
  imports Complex_Main
begin

section \<open>Character-level name classification: the script \<open>RNN_vs_LSTM.py\<close>\<close>

text \<open>
  A Python \<open>str\<close> is a sequence of Unicode code points, so a character is modelled by its
  code point and a string by a list of code points. File names and category labels never
  leave ASCII in what follows and are kept as HOL strings. Every exception the script can
  raise is a value of \<open>error\<close>; a function that may raise returns \<open>error + 'a\<close>.
\<close>

type_synonym uchar = nat
type_synonym ustring = "uchar list"

datatype error =
    OSError
  | KeyError
  | ValueError
  | IndexError
  | UnboundLocalError
  | AttributeError
  | RuntimeError

subsection \<open>Step 1: preparing the data\<close>

definition ascii_lowercase :: ustring where
  "ascii_lowercase = map of_char ''abcdefghijklmnopqrstuvwxyz''"

definition ascii_uppercase :: ustring where
  "ascii_uppercase = map of_char ''ABCDEFGHIJKLMNOPQRSTUVWXYZ''"

definition ascii_letters :: ustring where
  "ascii_letters = ascii_lowercase @ ascii_uppercase"

text \<open>\<open>all_letters = string.ascii_letters + " .,;'"\<close>; the apostrophe is code point 39.\<close>

definition all_letters :: ustring where
  "all_letters = ascii_letters @ map of_char ('' .,;'' @ [CHR 0x27])"

definition n_letters :: nat where
  "n_letters = length all_letters"

text \<open>
  The module \<open>unicodedata\<close> is library code: its two functions used by the script are the
  fields of a record, \<open>normalize_NFD s\<close> standing for \<open>unicodedata.normalize('NFD', s)\<close>
  and \<open>unicode_category c\<close> for \<open>unicodedata.category(c)\<close>.
\<close>

record unicodedata =
  normalize_NFD :: "ustring \<Rightarrow> ustring"
  unicode_category :: "uchar \<Rightarrow> string"

definition unicodeToAscii :: "unicodedata \<Rightarrow> ustring \<Rightarrow> ustring" where
  "unicodeToAscii ud s =
     filter (\<lambda>c. unicode_category ud c \<noteq> ''Mn'' \<and> c \<in> set all_letters) (normalize_NFD ud s)"



fun split :: "'a \<Rightarrow> 'a list \<Rightarrow> 'a list list" where
  "split sep [] = [[]]"
| "split sep (c # cs) =
     (if c = sep then [] # split sep cs
      else (case split sep cs of [] \<Rightarrow> [[c]] | w # ws \<Rightarrow> (c # w) # ws))"





record corpus =
  all_categories :: "string list"
  category_lines :: "string \<rightharpoonup> ustring list"



definition n_categories :: "corpus \<Rightarrow> nat" where
  "n_categories cp = length (all_categories cp)"

subsection \<open>Step 2: turning names into tensors\<close>

text \<open>
  Tensors of floats are nested lists; the scalars are read as real numbers. A tensor of
  shape \<open><line_length x 1 x n_letters>\<close> is a list of one-row matrices.
\<close>

type_synonym vec = "real list"
type_synonym mat = "real list list"
type_synonym tensor3 = "real list list list"

definition zeros2 :: "nat \<Rightarrow> nat \<Rightarrow> mat" where
  "zeros2 r c = replicate r (replicate c 0)"

definition zeros3 :: "nat \<Rightarrow> nat \<Rightarrow> nat \<Rightarrow> tensor3" where
  "zeros3 a r c = replicate a (zeros2 r c)"

text \<open>\<open>str.find\<close>: the first position of the character, or \<open>-1\<close> when it is absent.\<close>

fun find_from :: "nat \<Rightarrow> 'a list \<Rightarrow> 'a \<Rightarrow> int" where
  "find_from i [] c = - 1"
| "find_from i (x # xs) c = (if x = c then int i else find_from (Suc i) xs c)"

definition str_find :: "'a list \<Rightarrow> 'a \<Rightarrow> int" where
  "str_find s c = find_from 0 s c"

definition letterToIndex :: "uchar \<Rightarrow> int" where
  "letterToIndex letter = str_find all_letters letter"

text \<open>
  Python indexing of a sequence of length \<open>n\<close>: a negative index counts from the end, and
  an index outside \<open>-n .. n-1\<close> raises \<open>IndexError\<close>.
\<close>

definition py_index :: "nat \<Rightarrow> int \<Rightarrow> error + nat" where
  "py_index n i =
     (if 0 \<le> i \<and> i < int n then Inr (nat i)
      else if - int n \<le> i \<and> i < 0 then Inr (nat (i + int n))
      else Inl IndexError)"

definition getitem :: "'a list \<Rightarrow> int \<Rightarrow> error + 'a" where
  "getitem xs i = (case py_index (length xs) i of Inl e \<Rightarrow> Inl e | Inr j \<Rightarrow> Inr (xs ! j))"

definition setitem :: "'a list \<Rightarrow> int \<Rightarrow> 'a \<Rightarrow> error + 'a list" where
  "setitem xs i v =
     (case py_index (length xs) i of Inl e \<Rightarrow> Inl e | Inr j \<Rightarrow> Inr (xs[j := v]))"

text \<open>\<open>t[i][j] = v\<close> and \<open>t[a][i][j] = v\<close> on nested tensors.\<close>

definition setitem2 :: "mat \<Rightarrow> int \<Rightarrow> int \<Rightarrow> real \<Rightarrow> error + mat" where
  "setitem2 t i j v =
     (case getitem t i of
        Inl e \<Rightarrow> Inl e
      | Inr row \<Rightarrow>
          (case setitem row j v of
             Inl e \<Rightarrow> Inl e
           | Inr row' \<Rightarrow> setitem t i row'))"

definition setitem3 :: "tensor3 \<Rightarrow> int \<Rightarrow> int \<Rightarrow> int \<Rightarrow> real \<Rightarrow> error + tensor3" where
  "setitem3 t a i j v =
     (case getitem t a of
        Inl e \<Rightarrow> Inl e
      | Inr m \<Rightarrow>
          (case setitem2 m i j v of
             Inl e \<Rightarrow> Inl e
           | Inr m' \<Rightarrow> setitem t a m'))"

definition letterToTensor :: "uchar \<Rightarrow> error + mat" where
  "letterToTensor letter = setitem2 (zeros2 1 n_letters) 0 (letterToIndex letter) 1"

text \<open>The loop \<open>for li, letter in enumerate(line)\<close>, started at \<open>li = 0\<close>.\<close>

fun lineToTensor_loop :: "nat \<Rightarrow> ustring \<Rightarrow> tensor3 \<Rightarrow> error + tensor3" where
  "lineToTensor_loop li [] tensor = Inr tensor"
| "lineToTensor_loop li (letter # rest) tensor =
     (case setitem3 tensor (int li) 0 (letterToIndex letter) 1 of
        Inl e \<Rightarrow> Inl e
      | Inr tensor' \<Rightarrow> lineToTensor_loop (Suc li) rest tensor')"

definition lineToTensor :: "ustring \<Rightarrow> error + tensor3" where
  "lineToTensor line = lineToTensor_loop 0 line (zeros3 (length line) 1 n_letters)"

subsection \<open>Step 3: the network\<close>

text \<open>
  \<open>nn.Linear(in_features, out_features)\<close> owns a weight of shape
  \<open><out_features x in_features>\<close> and a bias of length \<open>out_features\<close>; applied to a batch it
  computes \<open>x W\<^sup>T + b\<close> row by row and raises when a row has not \<open>in_features\<close> entries.
  \<open>nn.LogSoftmax(dim=1)\<close> subtracts from every entry of a row the logarithm of the sum of
  the row's exponentials.
\<close>

record linear =
  in_features :: nat
  out_features :: nat
  weight :: mat
  bias :: vec

definition dot :: "vec \<Rightarrow> vec \<Rightarrow> real" where
  "dot xs ys = sum_list (map2 (*) xs ys)"

definition linear_forward :: "linear \<Rightarrow> mat \<Rightarrow> error + mat" where
  "linear_forward l x =
     (if list_all (\<lambda>xr. length xr = in_features l) x
      then Inr (map (\<lambda>xr. map2 (\<lambda>w b. dot xr w + b) (weight l) (bias l)) x)
      else Inl RuntimeError)"

definition log_softmax :: "vec \<Rightarrow> vec" where
  "log_softmax row = map (\<lambda>x. x - ln (sum_list (map exp row))) row"

definition softmax :: "mat \<Rightarrow> mat" where
  "softmax t = map log_softmax t"

text \<open>\<open>torch.cat((a, b), 1)\<close> joins the rows of two matrices of equally many rows.\<close>

definition cat1 :: "mat \<Rightarrow> mat \<Rightarrow> error + mat" where
  "cat1 a b = (if length a = length b then Inr (map2 (@) a b) else Inl RuntimeError)"

record RNN =
  hidden_size :: nat
  i2h :: linear
  i2o :: linear

definition forward :: "RNN \<Rightarrow> mat \<Rightarrow> mat \<Rightarrow> error + (mat \<times> mat)" where
  "forward self input hidden =
     (case cat1 input hidden of
        Inl e \<Rightarrow> Inl e
      | Inr combined \<Rightarrow>
          (case linear_forward (i2h self) combined of
             Inl e \<Rightarrow> Inl e
           | Inr hidden' \<Rightarrow>
               (case linear_forward (i2o self) combined of
                  Inl e \<Rightarrow> Inl e
                | Inr output \<Rightarrow> Inr (softmax output, hidden'))))"

definition initHidden :: "RNN \<Rightarrow> mat" where
  "initHidden self = zeros2 1 (hidden_size self)"

text \<open>
  The shapes that the constructor call \<open>RNN(n_letters, n_hidden, n_categories)\<close> gives to
  the two layers, for \<open>n_categories = ncat\<close>.
\<close>

definition linear_shape :: "linear \<Rightarrow> nat \<Rightarrow> nat \<Rightarrow> bool" where
  "linear_shape l n_in n_out =
     (in_features l = n_in \<and> out_features l = n_out \<and> length (weight l) = n_out \<and>
      list_all (\<lambda>w. length w = n_in) (weight l) \<and> length (bias l) = n_out)"

definition RNN_shape :: "RNN \<Rightarrow> nat \<Rightarrow> bool" where
  "RNN_shape self ncat =
     (linear_shape (i2h self) (n_letters + hidden_size self) (hidden_size self) \<and>
      linear_shape (i2o self) (n_letters + hidden_size self) ncat)"

subsection \<open>Step 4: training\<close>

text \<open>
  \<open>Tensor.topk(k, dim, largest=True)\<close> along the last dimension of a matrix: for every row
  the \<open>k\<close> largest entries in descending order, with their positions. It raises when \<open>k\<close>
  is negative or exceeds the row length. The library leaves the order of equal entries
  open; here the earlier position comes first.
\<close>

definition topk_row :: "nat \<Rightarrow> vec \<Rightarrow> (real \<times> nat) list" where
  "topk_row k row = take k (sort_key (\<lambda>p. - fst p) (zip row [0 ..< length row]))"

definition topk :: "int \<Rightarrow> mat \<Rightarrow> error + (mat \<times> nat list list)" where
  "topk k t =
     (if 0 \<le> k \<and> list_all (\<lambda>row. k \<le> int (length row)) t
      then Inr (map (\<lambda>row. map fst (topk_row (nat k) row)) t,
                map (\<lambda>row. map snd (topk_row (nat k) row)) t)
      else Inl RuntimeError)"

text \<open>\<open>Tensor.item()\<close> reads the only element of a one-element tensor.\<close>

fun item :: "'a list \<Rightarrow> error + 'a" where
  "item [x] = Inr x"
| "item xs = Inl ValueError"

definition categoryFromOutput :: "string list \<Rightarrow> mat \<Rightarrow> error + (string \<times> nat)" where
  "categoryFromOutput cats output =
     (case topk 1 output of
        Inl e \<Rightarrow> Inl e
      | Inr (top_n, top_i) \<Rightarrow>
          (case getitem top_i 0 of
             Inl e \<Rightarrow> Inl e
           | Inr first \<Rightarrow>
               (case item first of
                  Inl e \<Rightarrow> Inl e
                | Inr category_i \<Rightarrow>
                    (case getitem cats (int category_i) of
                       Inl e \<Rightarrow> Inl e
                     | Inr c \<Rightarrow> Inr (c, category_i)))))"

text \<open>
  The state of the module \<open>random\<close> is the sequence of raw draws still to come.
  \<open>random.randint(a, b)\<close> raises on an empty range and otherwise consumes one draw and
  returns a number between \<open>a\<close> and \<open>b\<close>, both included.
\<close>

type_synonym random_state = "nat \<Rightarrow> nat"

definition randint :: "int \<Rightarrow> int \<Rightarrow> random_state \<Rightarrow> error + (int \<times> random_state)" where
  "randint a b g =
     (if b < a then Inl ValueError
      else Inr (a + int (g 0 mod nat (b - a + 1)), \<lambda>i. g (Suc i)))"

definition randomChoice :: "'a list \<Rightarrow> random_state \<Rightarrow> error + ('a \<times> random_state)" where
  "randomChoice l g =
     (case randint 0 (int (length l) - 1) g of
        Inl e \<Rightarrow> Inl e
      | Inr (i, g') \<Rightarrow>
          (case getitem l i of
             Inl e \<Rightarrow> Inl e
           | Inr x \<Rightarrow> Inr (x, g')))"

text \<open>\<open>list.index\<close>: the first position of an element, \<open>ValueError\<close> when it is absent.\<close>

fun list_index :: "'a list \<Rightarrow> 'a \<Rightarrow> error + nat" where
  "list_index [] x = Inl ValueError"
| "list_index (y # ys) x =
     (if y = x then Inr 0
      else (case list_index ys x of Inl e \<Rightarrow> Inl e | Inr i \<Rightarrow> Inr (Suc i)))"

definition randomTrainingExample ::
  "corpus \<Rightarrow> random_state \<Rightarrow> error + ((string \<times> ustring \<times> nat list \<times> tensor3) \<times> random_state)"
where
  "randomTrainingExample cp g =
     (case randomChoice (all_categories cp) g of
        Inl e \<Rightarrow> Inl e
      | Inr (category, g1) \<Rightarrow>
          (case category_lines cp category of
             None \<Rightarrow> Inl KeyError
           | Some lines \<Rightarrow>
               (case randomChoice lines g1 of
                  Inl e \<Rightarrow> Inl e
                | Inr (line, g2) \<Rightarrow>
                    (case list_index (all_categories cp) category of
                       Inl e \<Rightarrow> Inl e
                     | Inr ci \<Rightarrow>
                         (case lineToTensor line of
                            Inl e \<Rightarrow> Inl e
                          | Inr line_tensor \<Rightarrow>
                              Inr ((category, line, [ci], line_tensor), g2))))))"



text \<open>
  The parameters of the network with the gradients that \<open>backward\<close> stored for them
  (\<open>None\<close> before the first backward pass). Automatic differentiation is the library's:
  \<open>autograd\<close> gives, for the parameters, the encoded line and the target, the gradient of
  the loss, of the same shapes as the parameters.
\<close>

record gradients =
  d_i2h_weight :: mat
  d_i2h_bias :: vec
  d_i2o_weight :: mat
  d_i2o_bias :: vec

record module_state =
  rnn :: RNN
  grad :: "gradients option"








text \<open>
  The loop \<open>for i in range(line_tensor.size()[0]): output, hidden = rnn(line_tensor[i], hidden)\<close>
  of both \<open>train\<close> and \<open>evaluate\<close>. Its state is the pair of \<open>output\<close>, unbound (\<open>None\<close>)
  until the first pass, and \<open>hidden\<close>.
\<close>

fun rnn_loop :: "RNN \<Rightarrow> tensor3 \<Rightarrow> mat option \<times> mat \<Rightarrow> error + (mat option \<times> mat)" where
  "rnn_loop self [] st = Inr st"
| "rnn_loop self (x # rest) (output, hidden) =
     (case forward self x hidden of
        Inl e \<Rightarrow> Inl e
      | Inr (output', hidden') \<Rightarrow> rnn_loop self rest (Some output', hidden'))"


subsection \<open>Step 5: evaluating the results\<close>

definition evaluate :: "module_state \<Rightarrow> tensor3 \<Rightarrow> error + (mat \<times> module_state)" where
  "evaluate st line_tensor =
     (let hidden = initHidden (rnn st) in
      case rnn_loop (rnn st) line_tensor (None, hidden) of
        Inl e \<Rightarrow> Inl e
      | Inr (None, hidden') \<Rightarrow> Inl UnboundLocalError
      | Inr (Some output, hidden') \<Rightarrow> Inr (output, st))"

text \<open>
  One pass of the confusion loop up to the increment: draw an example, evaluate it, and
  return the index of the true category with the index of the guess.
\<close>

definition trial ::
  "corpus \<Rightarrow> module_state \<times> random_state \<Rightarrow> error + ((nat \<times> nat) \<times> module_state \<times> random_state)"
where
  "trial cp s =
     (case randomTrainingExample cp (snd s) of
        Inl e \<Rightarrow> Inl e
      | Inr ((category, line, category_tensor, line_tensor), g') \<Rightarrow>
          (case evaluate (fst s) line_tensor of
             Inl e \<Rightarrow> Inl e
           | Inr (output, st') \<Rightarrow>
               (case categoryFromOutput (all_categories cp) output of
                  Inl e \<Rightarrow> Inl e
                | Inr (guess, guess_i) \<Rightarrow>
                    (case list_index (all_categories cp) category of
                       Inl e \<Rightarrow> Inl e
                     | Inr category_i \<Rightarrow> Inr ((category_i, guess_i), st', g')))))"

text \<open>\<open>confusion[category_i][guess_i] += 1\<close>\<close>

definition increment :: "mat \<Rightarrow> nat \<Rightarrow> nat \<Rightarrow> error + mat" where
  "increment confusion category_i guess_i =
     (case getitem confusion (int category_i) of
        Inl e \<Rightarrow> Inl e
      | Inr row \<Rightarrow>
          (case getitem row (int guess_i) of
             Inl e \<Rightarrow> Inl e
           | Inr x \<Rightarrow> setitem2 confusion (int category_i) (int guess_i) (x + 1)))"

fun confusion_loop ::
  "corpus \<Rightarrow> nat \<Rightarrow> mat \<times> module_state \<times> random_state
     \<Rightarrow> error + (mat \<times> module_state \<times> random_state)"
where
  "confusion_loop cp 0 s = Inr s"
| "confusion_loop cp (Suc n) (confusion, s) =
     (case trial cp s of
        Inl e \<Rightarrow> Inl e
      | Inr ((category_i, guess_i), s') \<Rightarrow>
          (case increment confusion category_i guess_i of
             Inl e \<Rightarrow> Inl e
           | Inr confusion' \<Rightarrow> confusion_loop cp n (confusion', s')))"







definition n_confusion :: nat where
  "n_confusion = 10000"


subsection \<open>Step 5.1: running on user input\<close>

text \<open>
  \<open>predict\<close> prints its predictions and collects them in the local list \<open>predictions\<close>; it
  has no \<open>return\<close> statement, so the value it returns is Python's \<open>None\<close>.
\<close>

record prediction_run =
  predictions :: "(real \<times> string) list"
  returned :: "(real \<times> string) list option"

fun predict_loop ::
  "string list \<Rightarrow> mat \<Rightarrow> nat list list \<Rightarrow> nat list \<Rightarrow> (real \<times> string) list
     \<Rightarrow> error + (real \<times> string) list"
where
  "predict_loop cats topv topi [] preds = Inr preds"
| "predict_loop cats topv topi (i # rest) preds =
     (case getitem topv 0 of
        Inl e \<Rightarrow> Inl e
      | Inr vrow \<Rightarrow>
          (case getitem vrow (int i) of
             Inl e \<Rightarrow> Inl e
           | Inr val \<Rightarrow>
               (case getitem topi 0 of
                  Inl e \<Rightarrow> Inl e
                | Inr irow \<Rightarrow>
                    (case getitem irow (int i) of
                       Inl e \<Rightarrow> Inl e
                     | Inr category_index \<Rightarrow>
                         (case getitem cats (int category_index) of
                            Inl e \<Rightarrow> Inl e
                          | Inr c \<Rightarrow> predict_loop cats topv topi rest (preds @ [(val, c)]))))))"

definition predict ::
  "corpus \<Rightarrow> module_state \<Rightarrow> ustring \<Rightarrow> int \<Rightarrow> error + (prediction_run \<times> module_state)"
where
  "predict cp st input_line n_predictions =
     (case lineToTensor input_line of
        Inl e \<Rightarrow> Inl e
      | Inr line_tensor \<Rightarrow>
          (case evaluate st line_tensor of
             Inl e \<Rightarrow> Inl e
           | Inr (output, st') \<Rightarrow>
               (case topk n_predictions output of
                  Inl e \<Rightarrow> Inl e
                | Inr (topv, topi) \<Rightarrow>
                    (case predict_loop (all_categories cp) topv topi [0 ..< nat n_predictions] [] of
                       Inl e \<Rightarrow> Inl e
                     | Inr preds \<Rightarrow> Inr (\<lparr>predictions = preds, returned = None\<rparr>, st')))))"

subsection \<open>Notions of the specification\<close>

text \<open>
  A one-hot vector of length \<open>n\<close> is zero everywhere except for a single 1 at position \<open>k\<close>.
\<close>

definition one_hot :: "nat \<Rightarrow> nat \<Rightarrow> vec" where
  "one_hot n k = (replicate n 0)[k := 1]"

text \<open>
  The position that \<open>lineToTensor\<close> writes for a letter: Python reads the index \<open>-1\<close>, which
  \<open>letterToIndex\<close> returns for a character outside \<open>all_letters\<close>, as the last position.
\<close>

definition written_position :: "uchar \<Rightarrow> nat" where
  "written_position c =
     (if letterToIndex c < 0 then nat (letterToIndex c + int n_letters)
      else nat (letterToIndex c))"



text \<open>
  The entries of the Unicode tables for the letters of the script's own example,
  \<open>unicodeToAscii('\<dots>lus\<dots>rski')\<close> with an acute S (code point 346) and a grave a (224), and for
  the e and the i with acute (233, 237): their canonical decompositions into a base letter and a combining
  mark, and the general categories \<open>Mn\<close> of the combining diacritical marks, \<open>Ll\<close> and \<open>Lu\<close>
  of the ASCII letters, \<open>Zs\<close> of the space and \<open>Po\<close> of the ASCII punctuation.
\<close>

definition decompose :: "uchar \<Rightarrow> ustring" where
  "decompose c =
     (if c = 346 then [83, 769]
      else if c = 224 then [97, 768]
      else if c = 233 then [101, 769]
      else if c = 237 then [105, 769]
      else [c])"

definition unicodedata_fragment :: unicodedata where
  "unicodedata_fragment =
     \<lparr>normalize_NFD = (\<lambda>s. concat (map decompose s)),
      unicode_category = (\<lambda>c.
        if 768 \<le> c \<and> c < 880 then ''Mn''
        else if c \<in> set ascii_lowercase then ''Ll''
        else if c \<in> set ascii_uppercase then ''Lu''
        else if c = 32 then ''Zs''
        else ''Po'')\<rparr>"

text \<open>
  The network that \<open>RNN(input_size, hidden_size, output_size)\<close> constructs, with all its
  parameters initialised to zero, as a concrete instance for the examples.
\<close>

definition zero_linear :: "nat \<Rightarrow> nat \<Rightarrow> linear" where
  "zero_linear n_in n_out =
     \<lparr>in_features = n_in, out_features = n_out,
      weight = zeros2 n_out n_in, bias = replicate n_out 0\<rparr>"

definition zero_RNN :: "nat \<Rightarrow> nat \<Rightarrow> nat \<Rightarrow> RNN" where
  "zero_RNN input_size n_hidden output_size =
     \<lparr>hidden_size = n_hidden,
      i2h = zero_linear (input_size + n_hidden) n_hidden,
      i2o = zero_linear (input_size + n_hidden) output_size\<rparr>"

text \<open>
  The corpus of the specification's end-to-end scenario: category English with the names
  Smith and Jones, category Spanish with Garcia (written with an acute i in the file) and
  Lopez. A third file without any text stands for an empty category.
\<close>

definition scenario_corpus :: corpus where
  "scenario_corpus =
     \<lparr>all_categories = [''English'', ''Spanish''],
      category_lines =
        [''English'' \<mapsto> [map of_char ''Smith'', map of_char ''Jones''],
         ''Spanish'' \<mapsto> [map of_char ''Garcia'', map of_char ''Lopez'']]\<rparr>"



section \<open>Properties\<close>

subsection \<open>The alphabet\<close>

lemmas alphabet_defs = all_letters_def ascii_letters_def ascii_lowercase_def ascii_uppercase_def

lemma n_letters_57: "n_letters = 57"
  by (simp add: n_letters_def alphabet_defs)

text \<open>
  C2 (as stated): the alphabet has exactly 55 characters. It has not: the string of
  punctuation appended to the letters holds five characters, the semicolon among them.
\<close>

theorem alphabet_not_55_letters: "n_letters \<noteq> 55 \<and> 59 \<in> set all_letters"
  by (simp add: n_letters_def alphabet_defs)

text \<open>
  C2 (amended): the alphabet has exactly 57 characters, all different: the 52 upper-case
  and lower-case ASCII letters followed by space, period, comma, semicolon and apostrophe.
\<close>

theorem alphabet_has_57_letters:
  "n_letters = 57 \<and> length ascii_letters = 52 \<and> distinct all_letters \<and>
   all_letters = ascii_letters @ [32, 46, 44, 59, 39]"
  by (simp add: n_letters_def alphabet_defs)

subsection \<open>Normalisation\<close>

text \<open>
  C7: every character of the output of \<open>unicodeToAscii\<close> is in the alphabet, and the output
  is the decomposed input without its combining marks from which exactly the characters
  outside the alphabet have been dropped.
\<close>

theorem unicodeToAscii_within_alphabet:
  "set (unicodeToAscii ud s) \<subseteq> set all_letters \<and>
   unicodeToAscii ud s =
     filter (\<lambda>c. c \<in> set all_letters)
       (filter (\<lambda>c. unicode_category ud c \<noteq> ''Mn'') (normalize_NFD ud s))"
  by (auto simp: unicodeToAscii_def conj_commute)

lemma decompose_letter: "c \<in> set all_letters \<Longrightarrow> decompose c = [c]"
  by (auto simp: decompose_def alphabet_defs)

lemma fragment_normalize:
  "set t \<subseteq> set all_letters \<Longrightarrow> normalize_NFD unicodedata_fragment t = t"
  by (induction t) (simp_all add: unicodedata_fragment_def decompose_letter)

lemma fragment_category:
  "c \<in> set all_letters \<Longrightarrow> unicode_category unicodedata_fragment c \<noteq> ''Mn''"
  by (auto simp: unicodedata_fragment_def alphabet_defs)

lemma fragment_example:
  "unicodeToAscii unicodedata_fragment [346, 108, 117, 115, 224, 114, 115, 107, 105] =
     map of_char ''Slusarski''"
  by (simp add: unicodeToAscii_def unicodedata_fragment_def decompose_def alphabet_defs)

text \<open>
  C8: normalisation is idempotent. The two facts about the library that this rests on are
  hypotheses: canonical decomposition leaves a string of alphabet characters as it is, and
  no alphabet character is a combining mark.
\<close>

theorem unicodeToAscii_idempotent:
  assumes nfd: "\<forall>t. set t \<subseteq> set all_letters \<longrightarrow> normalize_NFD ud t = t"
    and cat: "\<forall>c \<in> set all_letters. unicode_category ud c \<noteq> ''Mn''"
  shows "unicodeToAscii ud (unicodeToAscii ud s) = unicodeToAscii ud s"
proof -
  have sub: "set (unicodeToAscii ud s) \<subseteq> set all_letters"
    by (auto simp: unicodeToAscii_def)
  with nfd have "normalize_NFD ud (unicodeToAscii ud s) = unicodeToAscii ud s"
    by blast
  then have "unicodeToAscii ud (unicodeToAscii ud s) =
      filter (\<lambda>c. unicode_category ud c \<noteq> ''Mn'' \<and> c \<in> set all_letters) (unicodeToAscii ud s)"
    by (simp add: unicodeToAscii_def)
  also have "\<dots> = unicodeToAscii ud s"
    using sub cat by (intro filter_True) auto
  finally show ?thesis .
qed

theorem unicodeToAscii_idempotent_witness:
  "unicodeToAscii unicodedata_fragment
     (unicodeToAscii unicodedata_fragment [346, 108, 117, 115, 224, 114, 115, 107, 105]) =
   unicodeToAscii unicodedata_fragment [346, 108, 117, 115, 224, 114, 115, 107, 105] \<and>
   unicodeToAscii unicodedata_fragment [346, 108, 117, 115, 224, 114, 115, 107, 105] =
     map of_char ''Slusarski''"
  using unicodeToAscii_idempotent
          [of unicodedata_fragment "[346, 108, 117, 115, 224, 114, 115, 107, 105]"]
        fragment_normalize fragment_category fragment_example
  by blast

subsection \<open>Encoding\<close>

lemma find_from_absent: "c \<notin> set s \<Longrightarrow> find_from i s c = - 1"
  by (induction s arbitrary: i) auto

lemma find_from_present:
  "c \<in> set s \<Longrightarrow> \<exists>k < length s. find_from i s c = int (i + k) \<and> s ! k = c"
proof (induction s arbitrary: i)
  case Nil
  then show ?case by simp
next
  case (Cons x xs)
  show ?case
  proof (cases "x = c")
    case True
    then show ?thesis by auto
  next
    case False
    with Cons.prems have "c \<in> set xs" by simp
    from Cons.IH [OF this, of "Suc i"]
    obtain k where "k < length xs" "find_from (Suc i) xs c = int (Suc i + k)" "xs ! k = c"
      by blast
    with False have "Suc k < length (x # xs) \<and> find_from i (x # xs) c = int (i + Suc k) \<and>
        (x # xs) ! Suc k = c"
      by simp
    then show ?thesis by blast
  qed
qed

lemma letterToIndex_absent: "c \<notin> set all_letters \<Longrightarrow> letterToIndex c = - 1"
  by (simp add: letterToIndex_def str_find_def find_from_absent)

lemma letterToIndex_present:
  assumes "c \<in> set all_letters"
  shows "0 \<le> letterToIndex c \<and> letterToIndex c < int n_letters \<and>
     nat (letterToIndex c) < n_letters \<and> all_letters ! nat (letterToIndex c) = c"
proof -
  from find_from_present [OF assms, of 0]
  obtain k where "k < length all_letters" "find_from 0 all_letters c = int k"
    "all_letters ! k = c"
    by auto
  then show ?thesis
    by (simp add: letterToIndex_def str_find_def n_letters_def)
qed

lemma py_index_written: "py_index n_letters (letterToIndex c) = Inr (written_position c)"
proof (cases "c \<in> set all_letters")
  case True
  from letterToIndex_present [OF this] show ?thesis
    by (simp add: written_position_def py_index_def)
next
  case False
  then show ?thesis
    by (simp add: written_position_def letterToIndex_absent n_letters_57 py_index_def)
qed

lemma written_position_less: "written_position c < n_letters"
proof (cases "c \<in> set all_letters")
  case True
  from letterToIndex_present [OF this] show ?thesis
    by (simp add: written_position_def)
next
  case False
  then show ?thesis
    by (simp add: written_position_def letterToIndex_absent n_letters_57)
qed

lemma py_index_nat: "i < n \<Longrightarrow> py_index n (int i) = Inr i"
  by (simp add: py_index_def)

lemma getitem_nat: "i < length xs \<Longrightarrow> getitem xs (int i) = Inr (xs ! i)"
  by (simp add: getitem_def py_index_nat)

lemma getitem_0: "xs \<noteq> [] \<Longrightarrow> getitem xs 0 = Inr (xs ! 0)"
  using getitem_nat [of 0 xs] by simp

lemma setitem_nat: "i < length xs \<Longrightarrow> setitem xs (int i) v = Inr (xs[i := v])"
  by (simp add: setitem_def py_index_nat)

lemma setitem2_zero_row:
  "setitem2 [replicate n_letters 0] 0 (letterToIndex c) 1 =
     Inr [one_hot n_letters (written_position c)]"
  by (simp add: setitem2_def getitem_def setitem_def py_index_def [of "Suc 0"]
      py_index_written one_hot_def)

lemma setitem3_zero_row:
  assumes "li < length t" and "t ! li = [replicate n_letters 0]"
  shows "setitem3 t (int li) 0 (letterToIndex c) 1 =
           Inr (t[li := [one_hot n_letters (written_position c)]])"
  using assms by (simp add: setitem3_def getitem_nat setitem_nat setitem2_zero_row)

lemma lineToTensor_loop_eq:
  assumes "length t = li + length line"
    and "\<forall>i. li \<le> i \<and> i < length t \<longrightarrow> t ! i = [replicate n_letters 0]"
  shows "lineToTensor_loop li line t =
           Inr (take li t @ map (\<lambda>c. [one_hot n_letters (written_position c)]) line)"
  using assms
proof (induction line arbitrary: li t)
  case Nil
  then show ?case by simp
next
  case (Cons c cs)
  let ?t' = "t[li := [one_hot n_letters (written_position c)]]"
  have li: "li < length t" using Cons.prems(1) by simp
  have row: "t ! li = [replicate n_letters 0]" using Cons.prems(2) li by simp
  have step: "setitem3 t (int li) 0 (letterToIndex c) 1 = Inr ?t'"
    by (rule setitem3_zero_row [OF li row])
  have len: "length ?t' = Suc li + length cs" using Cons.prems(1) by simp
  have zeros: "\<forall>i. Suc li \<le> i \<and> i < length ?t' \<longrightarrow> ?t' ! i = [replicate n_letters 0]"
    using Cons.prems(2) by simp
  have "lineToTensor_loop (Suc li) cs ?t' =
          Inr (take (Suc li) ?t' @ map (\<lambda>c. [one_hot n_letters (written_position c)]) cs)"
    by (rule Cons.IH [OF len zeros])
  moreover have "take (Suc li) ?t' = take li t @ [[one_hot n_letters (written_position c)]]"
    using li by (simp add: take_Suc_conv_app_nth)
  ultimately show ?case using step by simp
qed

lemma lineToTensor_eq:
  "lineToTensor line = Inr (map (\<lambda>c. [one_hot n_letters (written_position c)]) line)"
  using lineToTensor_loop_eq [of "zeros3 (length line) 1 n_letters" 0 line]
  by (simp add: lineToTensor_def zeros3_def zeros2_def)

lemma one_hot_props:
  "k < n \<Longrightarrow> length (one_hot n k) = n \<and> one_hot n k ! k = 1 \<and>
     (\<forall>j < n. j \<noteq> k \<longrightarrow> one_hot n k ! j = 0)"
  by (simp add: one_hot_def)

text \<open>
  C3 (as stated): the index lookup fails loudly for a character outside the alphabet. It
  does not: for the digit 1 (code point 49) \<open>letterToIndex\<close> returns \<open>-1\<close>, and
  \<open>lineToTensor\<close> returns the encoding of the apostrophe (code point 39).
\<close>

theorem letterToIndex_outside_counterexample:
  "49 \<notin> set all_letters \<and> letterToIndex 49 = - 1 \<and>
   lineToTensor [49] = Inr [[one_hot 57 56]] \<and> lineToTensor [49] = lineToTensor [39]"
  by (simp add: lineToTensor_eq written_position_def n_letters_57 letterToIndex_def
      str_find_def alphabet_defs)

text \<open>
  C3 (amended): for every character outside the alphabet \<open>letterToIndex\<close> returns \<open>-1\<close>
  without raising, and \<open>letterToTensor\<close> and \<open>lineToTensor\<close> do not raise either: they use
  \<open>-1\<close> as the index, which sets the last position of the vector, the apostrophe's.
\<close>

theorem letterToIndex_outside_alphabet:
  assumes "c \<notin> set all_letters"
  shows "letterToIndex c = - 1 \<and>
         letterToTensor c = Inr [one_hot n_letters (n_letters - 1)] \<and>
         letterToTensor c = letterToTensor 39 \<and>
         lineToTensor (pre @ c # post) =
           Inr (map (\<lambda>c. [one_hot n_letters (written_position c)]) pre @
                [one_hot n_letters (n_letters - 1)] #
                map (\<lambda>c. [one_hot n_letters (written_position c)]) post)"
proof -
  have i: "letterToIndex c = - 1"
    using assms by (rule letterToIndex_absent)
  have w: "written_position c = n_letters - 1"
    by (simp add: written_position_def i n_letters_57)
  have w39: "written_position 39 = n_letters - 1"
    by (simp add: written_position_def n_letters_57 letterToIndex_def str_find_def alphabet_defs)
  have "letterToTensor c = Inr [one_hot n_letters (n_letters - 1)]"
    if "written_position c = n_letters - 1" for c
    using that by (simp add: letterToTensor_def zeros2_def setitem2_zero_row)
  from this [OF w] this [OF w39] show ?thesis
    using i w by (simp add: lineToTensor_eq)
qed

theorem letterToIndex_outside_alphabet_witness:
  "49 \<notin> set all_letters \<and> letterToIndex 49 = - 1 \<and>
   letterToTensor 49 = Inr [one_hot n_letters (n_letters - 1)] \<and>
   lineToTensor [97, 49] =
     Inr [[one_hot n_letters (written_position 97)], [one_hot n_letters (n_letters - 1)]]"
proof -
  have out: "49 \<notin> set all_letters"
    by (simp add: alphabet_defs)
  from letterToIndex_outside_alphabet [OF out, of "[97]" "[]"] out show ?thesis
    by simp
qed

text \<open>
  C4: for a name of alphabet characters \<open>lineToTensor\<close> returns a sequence as long as the
  name whose \<open>i\<close>-th element is a single row of length \<open>n_letters\<close> with a 1 at the index
  that \<open>letterToIndex\<close> gives for the \<open>i\<close>-th character, which is that character's
  position in the alphabet, and 0 everywhere else.
\<close>

theorem lineToTensor_one_hot:
  assumes "set line \<subseteq> set all_letters"
  shows "\<exists>t. lineToTensor line = Inr t \<and> length t = length line \<and>
     (\<forall>i < length line. \<exists>v. t ! i = [v] \<and> length v = n_letters \<and>
         0 \<le> letterToIndex (line ! i) \<and> nat (letterToIndex (line ! i)) < n_letters \<and>
         all_letters ! nat (letterToIndex (line ! i)) = line ! i \<and>
         v ! nat (letterToIndex (line ! i)) = 1 \<and>
         (\<forall>j < n_letters. j \<noteq> nat (letterToIndex (line ! i)) \<longrightarrow> v ! j = 0))"
proof -
  have "\<exists>v. [one_hot n_letters (written_position (line ! i))] = [v] \<and> length v = n_letters \<and>
         0 \<le> letterToIndex (line ! i) \<and> nat (letterToIndex (line ! i)) < n_letters \<and>
         all_letters ! nat (letterToIndex (line ! i)) = line ! i \<and>
         v ! nat (letterToIndex (line ! i)) = 1 \<and>
         (\<forall>j < n_letters. j \<noteq> nat (letterToIndex (line ! i)) \<longrightarrow> v ! j = 0)"
    if "i < length line" for i
  proof -
    from that assms have "line ! i \<in> set all_letters" by auto
    from letterToIndex_present [OF this]
    have p: "0 \<le> letterToIndex (line ! i)" "nat (letterToIndex (line ! i)) < n_letters"
      "all_letters ! nat (letterToIndex (line ! i)) = line ! i"
      by simp_all
    then have w: "written_position (line ! i) = nat (letterToIndex (line ! i))"
      by (simp add: written_position_def)
    from one_hot_props [OF p(2)] p w show ?thesis by simp
  qed
  then show ?thesis by (simp add: lineToTensor_eq)
qed

theorem lineToTensor_one_hot_witness:
  "set (map of_char ''Jones'') \<subseteq> set all_letters \<and>
   (\<exists>t. lineToTensor (map of_char ''Jones'') = Inr t \<and> length t = 5 \<and>
        (\<exists>v. t ! 0 = [v] \<and> length v = 57 \<and> v ! 35 = 1 \<and> v ! 0 = 0))"
proof -
  let ?line = "map of_char ''Jones'' :: ustring"
  have sub: "set ?line \<subseteq> set all_letters"
    by (simp add: alphabet_defs)
  have J: "nat (letterToIndex (?line ! 0)) = 35"
    by (simp add: letterToIndex_def str_find_def alphabet_defs)
  from lineToTensor_one_hot [OF sub] obtain t where
    t: "lineToTensor ?line = Inr t" "length t = length ?line"
    and all: "\<forall>i < length ?line. \<exists>v. t ! i = [v] \<and> length v = n_letters \<and>
         0 \<le> letterToIndex (?line ! i) \<and> nat (letterToIndex (?line ! i)) < n_letters \<and>
         all_letters ! nat (letterToIndex (?line ! i)) = ?line ! i \<and>
         v ! nat (letterToIndex (?line ! i)) = 1 \<and>
         (\<forall>j < n_letters. j \<noteq> nat (letterToIndex (?line ! i)) \<longrightarrow> v ! j = 0)"
    by blast
  have "0 < length ?line" by simp
  with all obtain v where v: "t ! 0 = [v]" "length v = n_letters"
    "v ! nat (letterToIndex (?line ! 0)) = 1"
    "\<forall>j < n_letters. j \<noteq> nat (letterToIndex (?line ! 0)) \<longrightarrow> v ! j = 0"
    by blast
  from v(3) have one: "v ! 35 = 1" by (simp only: J)
  from v(4) have "\<forall>j < 57. j \<noteq> 35 \<longrightarrow> v ! j = 0" by (simp only: J n_letters_57)
  then have zero: "v ! 0 = 0" by simp
  from v(2) have len: "length v = 57" by (simp only: n_letters_57)
  from t(2) have "length t = 5" by simp
  with sub t(1) v(1) len one zero show ?thesis by blast
qed

subsection \<open>The forward pass\<close>

lemma linear_forward_shape:
  assumes "linear_shape l n_in n_out" and "list_all (\<lambda>r. length r = n_in) x"
  shows "\<exists>y. linear_forward l x = Inr y \<and> length y = length x \<and>
           list_all (\<lambda>r. length r = n_out) y"
  using assms by (simp add: linear_forward_def linear_shape_def list_all_iff)

lemma forward_shape:
  assumes "RNN_shape self ncat" and "length v = n_letters" and "length h = hidden_size self"
  shows "\<exists>out h'. forward self [v] [h] = Inr ([out], [h']) \<and> length out = ncat \<and>
           length h' = hidden_size self"
proof -
  have c: "cat1 [v] [h] = Inr [v @ h]" by (simp add: cat1_def)
  have l: "list_all (\<lambda>r. length r = n_letters + hidden_size self) [v @ h]"
    using assms by simp
  from assms(1) have s1: "linear_shape (i2h self) (n_letters + hidden_size self) (hidden_size self)"
    and s2: "linear_shape (i2o self) (n_letters + hidden_size self) ncat"
    by (simp_all add: RNN_shape_def)
  from linear_forward_shape [OF s1 l] obtain y1 where
    y1: "linear_forward (i2h self) [v @ h] = Inr y1" "length y1 = 1"
      "list_all (\<lambda>r. length r = hidden_size self) y1"
    by auto
  from linear_forward_shape [OF s2 l] obtain y2 where
    y2: "linear_forward (i2o self) [v @ h] = Inr y2" "length y2 = 1"
      "list_all (\<lambda>r. length r = ncat) y2"
    by auto
  from y1(2,3) obtain h' where h': "y1 = [h']" "length h' = hidden_size self"
    by (cases y1) auto
  from y2(2,3) obtain out where out: "y2 = [out]" "length out = ncat"
    by (cases y2) auto
  show ?thesis
    using c y1(1) y2(1) h' out by (simp add: forward_def softmax_def log_softmax_def)
qed

lemma rnn_loop_shape:
  assumes "RNN_shape self ncat"
    and "\<forall>x \<in> set lt. \<exists>v. x = [v] \<and> length v = n_letters"
    and "length h = hidden_size self"
    and "lt \<noteq> []"
  shows "\<exists>out h'. rnn_loop self lt (out0, [h]) = Inr (Some [out], [h']) \<and>
           length out = ncat \<and> length h' = hidden_size self"
  using assms(2-)
proof (induction lt arbitrary: out0 h)
  case Nil
  then show ?case by simp
next
  case (Cons x rest)
  from Cons.prems(1) obtain v where v: "x = [v]" "length v = n_letters" by auto
  from forward_shape [OF assms(1) v(2) Cons.prems(2)] obtain out h' where
    f: "forward self [v] [h] = Inr ([out], [h'])" "length out = ncat"
      "length h' = hidden_size self"
    by blast
  show ?case
  proof (cases "rest = []")
    case True
    with f v show ?thesis by simp
  next
    case False
    from Cons.prems(1) have "\<forall>x \<in> set rest. \<exists>v. x = [v] \<and> length v = n_letters" by simp
    from Cons.IH [OF this f(3) False, of "Some [out]"] f(1) v(1) show ?thesis by simp
  qed
qed

lemma evaluate_encoded_shape:
  assumes "RNN_shape (rnn st) ncat"
    and "\<forall>x \<in> set lt. \<exists>v. x = [v] \<and> length v = n_letters"
    and "lt \<noteq> []"
  shows "\<exists>out. evaluate st lt = Inr ([out], st) \<and> length out = ncat"
proof -
  have h: "length (replicate (hidden_size (rnn st)) (0::real)) = hidden_size (rnn st)"
    by simp
  from rnn_loop_shape [OF assms(1,2) h assms(3), of None] obtain out h' where
    "rnn_loop (rnn st) lt (None, [replicate (hidden_size (rnn st)) 0]) = Inr (Some [out], [h'])"
    "length out = ncat"
    by blast
  then show ?thesis
    by (simp add: evaluate_def initHidden_def zeros2_def)
qed

lemma evaluate_shape:
  assumes "RNN_shape (rnn st) ncat" and "line \<noteq> []"
  shows "\<exists>lt out. lineToTensor line = Inr lt \<and> evaluate st lt = Inr ([out], st) \<and>
           length out = ncat"
proof -
  let ?lt = "map (\<lambda>c. [one_hot n_letters (written_position c)]) line"
  have enc: "\<forall>x \<in> set ?lt. \<exists>v. x = [v] \<and> length v = n_letters"
    by (auto simp: one_hot_def)
  have ne: "?lt \<noteq> []" using assms(2) by simp
  from evaluate_encoded_shape [OF assms(1) enc ne] show ?thesis
    by (simp add: lineToTensor_eq)
qed

lemma zero_RNN_shape: "RNN_shape (zero_RNN n_letters n_hidden ncat) ncat"
  by (simp add: RNN_shape_def linear_shape_def zero_RNN_def zero_linear_def zeros2_def
      list_all_iff)

text \<open>
  C10: for the empty input string the encoded line has no rows, the loop of \<open>evaluate\<close>
  runs zero times, \<open>output\<close> is never bound, and \<open>evaluate\<close> and \<open>predict\<close> fail with
  \<open>UnboundLocalError\<close> instead of returning scores.
\<close>

theorem evaluate_empty_line_fails:
  "lineToTensor [] = Inr [] \<and> evaluate st [] = Inl UnboundLocalError \<and>
   predict cp st [] k = Inl UnboundLocalError"
  by (simp add: lineToTensor_def zeros3_def evaluate_def predict_def)






subsection \<open>Top-k prediction\<close>

lemma topk_row_length: "length (topk_row k row) = min k (length row)"
  by (simp add: topk_row_def)

lemma topk_row_sorted: "sorted (map (\<lambda>p. - fst p) (topk_row k row))"
  unfolding topk_row_def take_map [symmetric]
  by (rule sorted_wrt_take) (rule sorted_sort_key)

lemma topk_row_entry:
  assumes "p \<in> set (topk_row k row)"
  shows "snd p < length row \<and> fst p = row ! snd p"
proof -
  from assms have "p \<in> set (sort_key (\<lambda>p. - fst p) (zip row [0 ..< length row]))"
    unfolding topk_row_def by (rule in_set_takeD)
  then have "p \<in> set (zip row [0 ..< length row])" by simp
  then show ?thesis by (auto simp: in_set_zip)
qed

lemma distinct_snd_zip: "distinct (map snd (zip row [0 ..< length row]))"
  by simp

lemma topk_row_distinct: "distinct (map snd (topk_row k row))"
proof -
  let ?z = "zip row [0 ..< length row]"
  have "distinct (map snd ?z)" by (rule distinct_snd_zip)
  then have "distinct ?z \<and> inj_on snd (set ?z)" by (simp only: distinct_map)
  then have "distinct (sort_key (\<lambda>p. - fst p) ?z) \<and>
      inj_on snd (set (sort_key (\<lambda>p. - fst p) ?z))"
    by (simp only: distinct_sort set_sort)
  then have "distinct (map snd (sort_key (\<lambda>p. - fst p) ?z))"
    by (simp only: distinct_map)
  then show ?thesis
    unfolding topk_row_def take_map [symmetric] by (rule distinct_take)
qed

lemma topk_row_largest:
  assumes "j < length row" and "j \<notin> snd ` set (topk_row k row)" and "p \<in> set (topk_row k row)"
  shows "row ! j \<le> fst p"
proof -
  let ?s = "sort_key (\<lambda>p. - fst p) (zip row [0 ..< length row])"
  let ?f = "\<lambda>p :: real \<times> nat. - fst p"
  have "(row ! j, j) \<in> set (zip row [0 ..< length row])"
    using assms(1) by (auto simp: in_set_zip)
  then have "(row ! j, j) \<in> set ?s" by simp
  then have "(row ! j, j) \<in> set (take k ?s) \<union> set (drop k ?s)"
    by (simp only: set_append [symmetric] append_take_drop_id)
  moreover have "(row ! j, j) \<notin> set (take k ?s)"
    using assms(2) by (force simp: topk_row_def)
  ultimately have d: "(row ! j, j) \<in> set (drop k ?s)" by simp
  have "sorted (map ?f (take k ?s) @ map ?f (drop k ?s))"
    by (simp only: map_append [symmetric] append_take_drop_id sorted_sort_key)
  then have "\<forall>x \<in> set (map ?f (take k ?s)). \<forall>y \<in> set (map ?f (drop k ?s)). x \<le> y"
    unfolding sorted_append by blast
  moreover have "?f p \<in> set (map ?f (take k ?s))"
    using assms(3) unfolding topk_row_def set_map by (rule imageI)
  moreover have "?f (row ! j, j) \<in> set (map ?f (drop k ?s))"
    using d unfolding set_map by (rule imageI)
  ultimately have "?f p \<le> ?f (row ! j, j)" by blast
  then show ?thesis by simp
qed

lemma topk_single_row:
  "topk k [out] =
     (if 0 \<le> k \<and> k \<le> int (length out)
      then Inr ([map fst (topk_row (nat k) out)], [map snd (topk_row (nat k) out)])
      else Inl RuntimeError)"
  by (simp add: topk_def)

lemma predict_loop_eq:
  assumes "\<forall>i \<in> set idxs. i < length vs \<and> i < length js \<and> js ! i < length cats"
  shows "predict_loop cats [vs] [js] idxs acc =
           Inr (acc @ map (\<lambda>i. (vs ! i, cats ! (js ! i))) idxs)"
  using assms
proof (induction idxs arbitrary: acc)
  case Nil
  show ?case by simp
next
  case (Cons i rest)
  then show ?case by (simp add: getitem_0 getitem_nat)
qed

lemma predict_result:
  assumes "RNN_shape (rnn st) (n_categories cp)" and "input_line \<noteq> []"
  shows "\<exists>lt out. lineToTensor input_line = Inr lt \<and> evaluate st lt = Inr ([out], st) \<and>
           length out = n_categories cp \<and>
           predict cp st input_line k =
             (if 0 \<le> k \<and> k \<le> int (n_categories cp)
              then Inr (\<lparr>predictions = map (\<lambda>p. (fst p, all_categories cp ! snd p))
                                       (topk_row (nat k) out),
                         returned = None\<rparr>, st)
              else Inl RuntimeError)"
proof -
  from evaluate_shape [OF assms] obtain lt out where
    e: "lineToTensor input_line = Inr lt" "evaluate st lt = Inr ([out], st)"
      "length out = n_categories cp"
    by blast
  let ?tk = "topk_row (nat k) out"
  have "predict cp st input_line k =
          Inr (\<lparr>predictions = map (\<lambda>p. (fst p, all_categories cp ! snd p)) ?tk,
                returned = None\<rparr>, st)"
    if k: "0 \<le> k" "k \<le> int (n_categories cp)"
  proof -
    have len: "length ?tk = nat k"
      using k e(3) by (simp add: topk_row_length)
    have "\<forall>i \<in> set [0 ..< nat k]. i < length (map fst ?tk) \<and> i < length (map snd ?tk) \<and>
            map snd ?tk ! i < length (all_categories cp)"
      using len e(3) topk_row_entry [of _ "nat k" out]
      by (auto simp: n_categories_def)
    from predict_loop_eq [OF this, of "[]"]
    have "predict_loop (all_categories cp) [map fst ?tk] [map snd ?tk] [0 ..< nat k] [] =
            Inr (map (\<lambda>i. (map fst ?tk ! i, all_categories cp ! (map snd ?tk ! i))) [0 ..< nat k])"
      by simp
    also have "map (\<lambda>i. (map fst ?tk ! i, all_categories cp ! (map snd ?tk ! i))) [0 ..< nat k] =
                 map (\<lambda>p. (fst p, all_categories cp ! snd p)) ?tk"
      using len by (simp add: list_eq_iff_nth_eq)
    finally show ?thesis
      using e k by (simp add: predict_def topk_single_row)
  qed
  moreover have "predict cp st input_line k = Inl RuntimeError"
    if "\<not> (0 \<le> k \<and> k \<le> int (n_categories cp))"
  proof -
    from that e(3) have "topk k [out] = Inl RuntimeError"
      by (auto simp: topk_single_row)
    with e show ?thesis by (simp add: predict_def)
  qed
  ultimately show ?thesis using e by auto
qed

text \<open>
  C1 (as stated): \<open>predict\<close> with \<open>n_predictions = k\<close> returns \<open>min(k, category_count)\<close>
  entries. Asked for three predictions over the two categories of the scenario corpus it
  raises instead: \<open>topk\<close> refuses a \<open>k\<close> beyond the number of scores.
\<close>

theorem predict_top_k_counterexample:
  "predict scenario_corpus \<lparr>rnn = zero_RNN n_letters 128 2, grad = None\<rparr>
     (map of_char ''Satoshi'') 3 = Inl RuntimeError \<and>
   \<not> (\<exists>run st'. predict scenario_corpus \<lparr>rnn = zero_RNN n_letters 128 2, grad = None\<rparr>
          (map of_char ''Satoshi'') 3 = Inr (run, st') \<and>
        length (predictions run) = min 3 (n_categories scenario_corpus))"
proof -
  let ?st = "\<lparr>rnn = zero_RNN n_letters 128 2, grad = None\<rparr>"
  have n: "n_categories scenario_corpus = 2"
    by (simp add: n_categories_def scenario_corpus_def)
  have sh: "RNN_shape (rnn ?st) (n_categories scenario_corpus)"
    by (simp add: n zero_RNN_shape)
  have ne: "map of_char ''Satoshi'' \<noteq> ([] :: ustring)" by simp
  from predict_result [OF sh ne, of 3]
  have "predict scenario_corpus ?st (map of_char ''Satoshi'') 3 = Inl RuntimeError"
    by (auto simp: n)
  then show ?thesis by simp
qed

text \<open>
  C1 (amended): for every non-empty input string and every network of the constructor's
  shapes, \<open>predict\<close> with \<open>0 \<le> k \<le> category_count\<close> collects exactly \<open>k\<close> (score, category)
  entries, sorted by non-increasing score: the scores and names of \<open>k\<close> different
  categories, none of the others scoring higher than any of them. For a \<open>k\<close> that is
  negative or greater than the number of categories it raises.
\<close>

theorem predict_top_k:
  assumes "RNN_shape (rnn st) (n_categories cp)" and "input_line \<noteq> []"
  shows "(0 \<le> k \<and> k \<le> int (n_categories cp) \<longrightarrow>
           (\<exists>lt out idx run.
              lineToTensor input_line = Inr lt \<and> evaluate st lt = Inr ([out], st) \<and>
              predict cp st input_line k = Inr (run, st) \<and>
              predictions run = map (\<lambda>i. (out ! i, all_categories cp ! i)) idx \<and>
              length (predictions run) = nat k \<and>
              sorted_wrt (\<ge>) (map fst (predictions run)) \<and>
              distinct idx \<and> (\<forall>i \<in> set idx. i < n_categories cp) \<and>
              (\<forall>j < n_categories cp. j \<notin> set idx \<longrightarrow> (\<forall>i \<in> set idx. out ! j \<le> out ! i)))) \<and>
         (k < 0 \<or> int (n_categories cp) < k \<longrightarrow>
            predict cp st input_line k = Inl RuntimeError)"
proof -
  from predict_result [OF assms, of k] obtain lt out where
    e: "lineToTensor input_line = Inr lt" "evaluate st lt = Inr ([out], st)"
      "length out = n_categories cp"
    and p: "predict cp st input_line k =
             (if 0 \<le> k \<and> k \<le> int (n_categories cp)
              then Inr (\<lparr>predictions = map (\<lambda>p. (fst p, all_categories cp ! snd p))
                                       (topk_row (nat k) out),
                         returned = None\<rparr>, st)
              else Inl RuntimeError)"
    by blast
  let ?tk = "topk_row (nat k) out"
  let ?idx = "map snd ?tk"
  let ?run = "\<lparr>predictions = map (\<lambda>p. (fst p, all_categories cp ! snd p)) ?tk,
               returned = None\<rparr>"
  have entries: "map (\<lambda>p. (fst p, all_categories cp ! snd p)) ?tk =
      map (\<lambda>i. (out ! i, all_categories cp ! i)) ?idx"
    using topk_row_entry [of _ "nat k" out] by simp
  have srt: "sorted_wrt (\<ge>) (map fst (predictions ?run))"
    using topk_row_sorted [of "nat k" out] by (simp add: sorted_wrt_map o_def)
  have bound: "\<forall>i \<in> set ?idx. i < n_categories cp"
    using topk_row_entry [of _ "nat k" out] e(3) by auto
  have largest: "\<forall>j < n_categories cp. j \<notin> set ?idx \<longrightarrow> (\<forall>i \<in> set ?idx. out ! j \<le> out ! i)"
  proof (intro allI impI ballI)
    fix j i
    assume j: "j < n_categories cp" "j \<notin> set ?idx" and i: "i \<in> set ?idx"
    from i obtain q where q: "q \<in> set ?tk" "i = snd q" by auto
    from topk_row_largest [of j out "nat k" q] j e(3) q(1)
    have "out ! j \<le> fst q" by simp
    with topk_row_entry [OF q(1)] q(2) show "out ! j \<le> out ! i" by simp
  qed
  have first: "\<exists>lt out idx run.
              lineToTensor input_line = Inr lt \<and> evaluate st lt = Inr ([out], st) \<and>
              predict cp st input_line k = Inr (run, st) \<and>
              predictions run = map (\<lambda>i. (out ! i, all_categories cp ! i)) idx \<and>
              length (predictions run) = nat k \<and>
              sorted_wrt (\<ge>) (map fst (predictions run)) \<and>
              distinct idx \<and> (\<forall>i \<in> set idx. i < n_categories cp) \<and>
              (\<forall>j < n_categories cp. j \<notin> set idx \<longrightarrow> (\<forall>i \<in> set idx. out ! j \<le> out ! i))"
    if k: "0 \<le> k \<and> k \<le> int (n_categories cp)"
  proof -
    from p k have pr: "predict cp st input_line k = Inr (?run, st)" by simp
    have len: "length (predictions ?run) = nat k"
      using k e(3) by (simp add: topk_row_length min_def nat_le_iff)
    have ent: "predictions ?run = map (\<lambda>i. (out ! i, all_categories cp ! i)) ?idx"
      using entries by simp
    from e(1,2) pr ent len srt topk_row_distinct [of "nat k" out] bound largest
    show ?thesis by blast
  qed
  have second: "predict cp st input_line k = Inl RuntimeError"
    if "k < 0 \<or> int (n_categories cp) < k"
    using p that by auto
  from first second show ?thesis by blast
qed

theorem predict_top_k_witness:
  "(\<exists>run. predict scenario_corpus \<lparr>rnn = zero_RNN n_letters 128 2, grad = None\<rparr>
            (map of_char ''Satoshi'') 2 =
            Inr (run, \<lparr>rnn = zero_RNN n_letters 128 2, grad = None\<rparr>) \<and>
          length (predictions run) = 2 \<and> sorted_wrt (\<ge>) (map fst (predictions run))) \<and>
   predict scenario_corpus \<lparr>rnn = zero_RNN n_letters 128 2, grad = None\<rparr>
     (map of_char ''Satoshi'') 5 = Inl RuntimeError"
proof -
  let ?st = "\<lparr>rnn = zero_RNN n_letters 128 2, grad = None\<rparr>"
  have n: "n_categories scenario_corpus = 2"
    by (simp add: n_categories_def scenario_corpus_def)
  have sh: "RNN_shape (rnn ?st) (n_categories scenario_corpus)"
    by (simp add: n zero_RNN_shape)
  have ne: "map of_char ''Satoshi'' \<noteq> ([] :: ustring)" by simp
  have two: "0 \<le> (2::int) \<and> 2 \<le> int (n_categories scenario_corpus)"
    by (simp add: n)
  have five: "(5::int) < 0 \<or> int (n_categories scenario_corpus) < 5"
    by (simp add: n)
  from predict_top_k [OF sh ne, of 2] two
  have a: "\<exists>run. predict scenario_corpus ?st (map of_char ''Satoshi'') 2 = Inr (run, ?st) \<and>
          length (predictions run) = nat 2 \<and> sorted_wrt (\<ge>) (map fst (predictions run))"
    by blast
  from predict_top_k [OF sh ne, of 5] five
  have b: "predict scenario_corpus ?st (map of_char ''Satoshi'') 5 = Inl RuntimeError"
    by blast
  from a b show ?thesis by simp
qed

subsection \<open>The corpus\<close>




lemma randint_range:
  "a \<le> b \<Longrightarrow> \<exists>i. randint a b g = Inr (i, \<lambda>n. g (Suc n)) \<and> a \<le> i \<and> i \<le> b"
proof -
  assume ab: "a \<le> b"
  then have pos: "0 < nat (b - a + 1)" by simp
  have "g 0 mod nat (b - a + 1) < nat (b - a + 1)"
    using pos by (rule mod_less_divisor)
  then have "int (g 0 mod nat (b - a + 1)) < b - a + 1"
    using ab by linarith
  then have "int (g 0 mod nat (b - a + 1)) \<le> b - a" by linarith
  with ab show ?thesis by (simp add: randint_def)
qed

lemma randomChoice_eq:
  assumes "l \<noteq> []"
  shows "randomChoice l g = Inr (l ! (g 0 mod length l), \<lambda>n. g (Suc n))"
proof -
  have pos: "0 < length l" using assms by simp
  then have less: "g 0 mod length l < length l" by (rule mod_less_divisor)
  have "randint 0 (int (length l) - 1) g = Inr (int (g 0 mod length l), \<lambda>n. g (Suc n))"
    using pos by (simp add: randint_def)
  with getitem_nat [OF less] show ?thesis by (simp add: randomChoice_def)
qed





subsection \<open>The confusion matrix\<close>

lemma list_index_bound: "list_index xs x = Inr i \<Longrightarrow> i < length xs \<and> xs ! i = x"
  by (induction xs arbitrary: i) (auto split: if_splits sum.splits)

lemma list_index_present: "x \<in> set xs \<Longrightarrow> \<exists>i. list_index xs x = Inr i"
  by (induction xs) (auto split: sum.splits)

lemma getitem_nat_Inr: "getitem xs (int i) = Inr x \<Longrightarrow> i < length xs \<and> x = xs ! i"
  by (auto simp: getitem_def py_index_def split: if_splits)

lemma categoryFromOutput_bound:
  "categoryFromOutput cats out = Inr (c, gi) \<Longrightarrow> gi < length cats"
  by (auto simp: categoryFromOutput_def dest: getitem_nat_Inr split: sum.splits prod.splits)

lemma trial_bounds:
  assumes "trial cp s = Inr ((ci, gi), s')"
  shows "ci < n_categories cp \<and> gi < n_categories cp"
  using assms
  by (auto simp: trial_def n_categories_def
      dest: categoryFromOutput_bound list_index_bound split: sum.splits prod.splits)

lemma setitem2_nat:
  "i < length t \<Longrightarrow> j < length (t ! i) \<Longrightarrow>
     setitem2 t (int i) (int j) v = Inr (t[i := (t ! i)[j := v]])"
  by (simp add: setitem2_def getitem_nat setitem_nat)

lemma increment_eq:
  "ci < length conf \<Longrightarrow> gi < length (conf ! ci) \<Longrightarrow>
     increment conf ci gi = Inr (conf[ci := (conf ! ci)[gi := conf ! ci ! gi + 1]])"
  by (simp add: increment_def getitem_nat setitem2_nat)








lemma categoryFromOutput_total:
  assumes "length out = length cats" and "cats \<noteq> []"
  shows "\<exists>c gi. categoryFromOutput cats [out] = Inr (c, gi)"
proof -
  let ?tk = "topk_row 1 out"
  have one: "1 \<le> length out" using assms by (cases cats) simp_all
  then have len: "length ?tk = 1" by (simp add: topk_row_length)
  then obtain q where q: "?tk = [q]" by (cases ?tk) simp_all
  then have "q \<in> set ?tk" by simp
  from topk_row_entry [OF this] assms(1) have b: "snd q < length cats" by simp
  have "topk 1 [out] = Inr ([map fst ?tk], [map snd ?tk])"
    using one by (simp add: topk_single_row)
  with q b show ?thesis
    by (simp add: categoryFromOutput_def getitem_0 getitem_nat)
qed

lemma trial_total:
  assumes "RNN_shape (rnn st) (n_categories cp)"
    and "all_categories cp \<noteq> []"
    and "\<forall>c \<in> set (all_categories cp).
           \<exists>ls. category_lines cp c = Some ls \<and> ls \<noteq> [] \<and> [] \<notin> set ls"
  shows "\<exists>ci gi. trial cp (st, g) = Inr ((ci, gi), st, \<lambda>n. g (Suc (Suc n))) \<and>
           list_index (all_categories cp)
             (all_categories cp ! (g 0 mod n_categories cp)) = Inr ci"
proof -
  let ?cats = "all_categories cp"
  let ?cat = "?cats ! (g 0 mod length ?cats)"
  let ?g1 = "\<lambda>n. g (Suc n)"
  have c1: "randomChoice ?cats g = Inr (?cat, ?g1)"
    by (rule randomChoice_eq [OF assms(2)])
  have mem: "?cat \<in> set ?cats" using assms(2) by simp
  with assms(3) obtain ls where
    ls: "category_lines cp ?cat = Some ls" "ls \<noteq> []" "[] \<notin> set ls"
    by blast
  let ?line = "ls ! (?g1 0 mod length ls)"
  have c2: "randomChoice ls ?g1 = Inr (?line, \<lambda>n. ?g1 (Suc n))"
    by (rule randomChoice_eq [OF ls(2)])
  have "?line \<in> set ls" using ls(2) by simp
  with ls(3) have ne: "?line \<noteq> []" by metis
  from list_index_present [OF mem] obtain ci where ci: "list_index ?cats ?cat = Inr ci"
    by blast
  from evaluate_shape [OF assms(1) ne] obtain lt out where
    e: "lineToTensor ?line = Inr lt" "evaluate st lt = Inr ([out], st)"
      "length out = n_categories cp"
    by blast
  have ex: "randomTrainingExample cp g = Inr ((?cat, ?line, [ci], lt), \<lambda>n. g (Suc (Suc n)))"
    by (simp add: randomTrainingExample_def c1 ls(1) c2 ci e(1))
  from categoryFromOutput_total [of out ?cats] e(3) assms(2) obtain c gi where
    cf: "categoryFromOutput ?cats [out] = Inr (c, gi)"
    by (auto simp: n_categories_def)
  have "trial cp (st, g) = Inr ((ci, gi), st, \<lambda>n. g (Suc (Suc n)))"
    by (simp add: trial_def ex e(2) cf ci)
  with ci show ?thesis by (simp add: n_categories_def)
qed

lemma confusion_loop_total:
  assumes "RNN_shape (rnn st) (n_categories cp)"
    and "all_categories cp \<noteq> []"
    and "\<forall>c \<in> set (all_categories cp).
           \<exists>ls. category_lines cp c = Some ls \<and> ls \<noteq> [] \<and> [] \<notin> set ls"
    and "length conf = n_categories cp"
    and "\<forall>row \<in> set conf. length row = n_categories cp"
  shows "\<exists>conf' g'. confusion_loop cp n (conf, st, g) = Inr (conf', st, g')"
  using assms(4,5)
proof (induction n arbitrary: conf g)
  case 0
  show ?case by simp
next
  case (Suc n)
  from trial_total [OF assms(1-3), of g] obtain ci gi where
    t: "trial cp (st, g) = Inr ((ci, gi), st, \<lambda>n. g (Suc (Suc n)))"
    by blast
  from trial_bounds [OF t] have b: "ci < n_categories cp" "gi < n_categories cp"
    by simp_all
  have "conf ! ci \<in> set conf" using Suc.prems(1) b(1) by simp
  with Suc.prems(2) have row: "length (conf ! ci) = n_categories cp" by blast
  let ?conf1 = "conf[ci := (conf ! ci)[gi := conf ! ci ! gi + 1]]"
  have inc: "increment conf ci gi = Inr ?conf1"
    using b row Suc.prems(1) by (intro increment_eq) simp_all
  have len1: "length ?conf1 = n_categories cp" using Suc.prems(1) by simp
  have rows1: "\<forall>r \<in> set ?conf1. length r = n_categories cp"
  proof
    fix r assume "r \<in> set ?conf1"
    then have "r = (conf ! ci)[gi := conf ! ci ! gi + 1] \<or> r \<in> set conf"
      by (auto dest!: set_update_subset_insert [THEN subsetD])
    with row Suc.prems(2) show "length r = n_categories cp" by auto
  qed
  from Suc.IH [OF len1 rows1, of "\<lambda>n. g (Suc (Suc n))"] t inc show ?case by simp
qed




end
